theory Spec2Isabelle
  imports Main
begin

section \<open>DNServer: the resolution decision engine of dnsserver.py\<close>

text \<open>
  Strings are \<open>char list\<close>; a character stands for a code point below 256. Only the ASCII
  letters are case-mapped and only the ASCII digits are digits, as Python does on ASCII text.
\<close>

subsection \<open>String primitives of Python used by the source\<close>

text \<open>\<^verbatim>\<open>s.rstrip('.')\<close>: every trailing dot is removed, not only one.\<close>

definition rstrip_dots :: "string \<Rightarrow> string" where
  "rstrip_dots s = rev (dropWhile (\<lambda>c. c = CHR ''.'') (rev s))"

text \<open>\<^verbatim>\<open>c.isspace()\<close> on code points below 256.\<close>

definition isspace :: "char \<Rightarrow> bool" where
  "isspace c = ((of_char c :: nat) \<in> {9, 10, 11, 12, 13, 28, 29, 30, 31, 32, 133, 160})"

text \<open>\<^verbatim>\<open>s.strip()\<close>: leading and trailing whitespace is removed.\<close>

definition strip :: "string \<Rightarrow> string" where
  "strip s = rev (dropWhile isspace (rev (dropWhile isspace s)))"

text \<open>\<^verbatim>\<open>s.upper()\<close> on ASCII text.\<close>

definition upper_char :: "char \<Rightarrow> char" where
  "upper_char c =
     (case map_of (zip ''abcdefghijklmnopqrstuvwxyz'' ''ABCDEFGHIJKLMNOPQRSTUVWXYZ'') c of
        Some u \<Rightarrow> u
      | None \<Rightarrow> c)"

definition upper :: "string \<Rightarrow> string" where
  "upper s = map upper_char s"

text \<open>\<^verbatim>\<open>s.endswith('.')\<close>.\<close>

definition endswith_dot :: "string \<Rightarrow> bool" where
  "endswith_dot s = (s \<noteq> [] \<and> last s = CHR ''.'')"

subsection \<open>Times of day\<close>

text \<open>
  A \<^verbatim>\<open>datetime.time\<close> value. Two naive times compare as the tuples
  \<^verbatim>\<open>(hour, minute, second, microsecond)\<close>.
\<close>

record time =
  hour :: nat
  minute :: nat
  second :: nat
  microsecond :: nat

definition time_le :: "time \<Rightarrow> time \<Rightarrow> bool" where
  "time_le a b =
     (hour a < hour b \<or> (hour a = hour b \<and>
       (minute a < minute b \<or> (minute a = minute b \<and>
         (second a < second b \<or> (second a = second b \<and>
           microsecond a \<le> microsecond b))))))"

text \<open>The invariant of every \<^verbatim>\<open>datetime.time\<close> object.\<close>

definition valid_time :: "time \<Rightarrow> bool" where
  "valid_time t = (hour t < 24 \<and> minute t < 60 \<and> second t < 60 \<and> microsecond t < 1000000)"

text \<open>
  \<^verbatim>\<open>datetime.datetime.strptime(s, '%H:%M').time()\<close>, with \<open>None\<close> for the ValueError.
  The format compiles to the regular expression
  \<^verbatim>\<open>(?P<H>2[0-3]|[0-1]\d|\d):(?P<M>[0-5]\d|\d)\<close>, matched at the start of the string
  with the alternatives tried in order; a match that does not reach the end of the string
  is rejected (unconverted data remains).
\<close>

definition digit_val :: "char \<Rightarrow> nat option" where
  "digit_val c =
     (let n = (of_char c :: nat) in if 48 \<le> n \<and> n \<le> 57 then Some (n - 48) else None)"

text \<open>The ways the group H matches a prefix, in the order of the alternatives, each with the rest.\<close>

fun H_matches :: "string \<Rightarrow> (nat \<times> string) list" where
  "H_matches [] = []"
| "H_matches [c] = (case digit_val c of Some d \<Rightarrow> [(d, [])] | None \<Rightarrow> [])"
| "H_matches (c # c' # r) =
     (case digit_val c of
        None \<Rightarrow> []
      | Some d \<Rightarrow>
          (case digit_val c' of
             None \<Rightarrow> [(d, c' # r)]
           | Some d' \<Rightarrow>
               (if d = 2 \<and> d' \<le> 3 then [(10 * d + d', r)] else []) @
               (if d \<le> 1 then [(10 * d + d', r)] else []) @
               [(d, c' # r)]))"

text \<open>The first way the group M matches a prefix.\<close>

fun M_match :: "string \<Rightarrow> (nat \<times> string) option" where
  "M_match [] = None"
| "M_match [c] = (case digit_val c of Some d \<Rightarrow> Some (d, []) | None \<Rightarrow> None)"
| "M_match (c # c' # r) =
     (case digit_val c of
        None \<Rightarrow> None
      | Some d \<Rightarrow>
          (case digit_val c' of
             None \<Rightarrow> Some (d, c' # r)
           | Some d' \<Rightarrow> if d \<le> 5 then Some (10 * d + d', r) else Some (d, c' # r)))"

text \<open>
  The search over the hour alternatives: the first one that is followed by a colon and a
  minute gives the match; the result is the parsed pair and the unconverted rest.
\<close>

fun HM_search :: "(nat \<times> string) list \<Rightarrow> (nat \<times> nat \<times> string) option" where
  "HM_search [] = None"
| "HM_search ((h, r) # alts) =
     (case r of
        [] \<Rightarrow> HM_search alts
      | c # r' \<Rightarrow>
          (if c = CHR '':'' then
             (case M_match r' of
                None \<Rightarrow> HM_search alts
              | Some (m, rest) \<Rightarrow> Some (h, m, rest))
           else HM_search alts))"

definition strptime_HM :: "string \<Rightarrow> time option" where
  "strptime_HM s =
     (case HM_search (H_matches s) of
        None \<Rightarrow> None
      | Some (h, m, rest) \<Rightarrow>
          (if rest = [] then Some \<lparr>hour = h, minute = m, second = 0, microsecond = 0\<rparr>
           else None))"

subsection \<open>Comprobar horario\<close>

text \<open>
  \<^verbatim>\<open>dentro_de_franja(start_str, end_str)\<close>; the clock value it reads
  (\<^verbatim>\<open>datetime.datetime.now().time()\<close>) is the argument \<open>now\<close>.
\<close>

definition dentro_de_franja :: "time \<Rightarrow> string \<Rightarrow> string \<Rightarrow> bool" where
  "dentro_de_franja now start_str end_str =
     (case strptime_HM start_str of
        None \<Rightarrow> True
      | Some start \<Rightarrow>
          (case strptime_HM end_str of
             None \<Rightarrow> True
           | Some end' \<Rightarrow>
               (if time_le start end' then time_le start now \<and> time_le now end'
                else time_le start now \<or> time_le now end')))"

text \<open>
  The reference definition of the time-window check, as the specification words it. It
  has its own reading of a time of day, apart from the parser above: an hour of one or two
  decimal digits below 24, a colon, and a minute of one or two decimal digits below 60.
\<close>

definition decimal_digit :: "char \<Rightarrow> nat option" where
  "decimal_digit c = map_of (zip ''0123456789'' [0, 1, 2, 3, 4, 5, 6, 7, 8, 9]) c"

fun short_number :: "string \<Rightarrow> nat option" where
  "short_number [a] = decimal_digit a"
| "short_number [a, b] =
     (case decimal_digit a of
        None \<Rightarrow> None
      | Some x \<Rightarrow> (case decimal_digit b of None \<Rightarrow> None | Some y \<Rightarrow> Some (10 * x + y)))"
| "short_number w = None"

definition hour_minute :: "string \<Rightarrow> (nat \<times> nat) option" where
  "hour_minute s =
     (case dropWhile (\<lambda>c. c \<noteq> CHR '':'') s of
        [] \<Rightarrow> None
      | colon # ms \<Rightarrow>
          (case short_number (takeWhile (\<lambda>c. c \<noteq> CHR '':'') s) of
             None \<Rightarrow> None
           | Some h \<Rightarrow>
               (case short_number ms of
                  None \<Rightarrow> None
                | Some m \<Rightarrow> if h < 24 \<and> m < 60 then Some (h, m) else None)))"

text \<open>
  Microseconds since midnight: of the clock value, and of a parsed hour and minute.
\<close>

definition micros :: "time \<Rightarrow> nat" where
  "micros t = ((hour t * 60 + minute t) * 60 + second t) * 1000000 + microsecond t"

definition hm_micros :: "nat \<times> nat \<Rightarrow> nat" where
  "hm_micros hm = (fst hm * 60 + snd hm) * 60 * 1000000"

text \<open>
  Fail open on an empty or unparseable string, an inclusive interval when start is not
  after end, and the window wrapped past midnight otherwise.
\<close>

definition isActive_spec :: "string \<Rightarrow> string \<Rightarrow> time \<Rightarrow> bool" where
  "isActive_spec startStr endStr now =
     (if startStr = [] \<or> endStr = [] then True
      else
        (case hour_minute startStr of
           None \<Rightarrow> True
         | Some start_hm \<Rightarrow>
             (case hour_minute endStr of
                None \<Rightarrow> True
              | Some end_hm \<Rightarrow>
                  (let s = hm_micros start_hm; e = hm_micros end_hm; n = micros now
                   in if s \<le> e then s \<le> n \<and> n \<le> e else n \<ge> s \<or> n \<le> e))))"

subsection \<open>Patron wildcard\<close>

text \<open>
  \<^verbatim>\<open>matches_pattern(name, pattern)\<close>. The library function \<^verbatim>\<open>fnmatch.fnmatch\<close> is
  the parameter \<open>fnm\<close>: every statement below holds for whatever glob matcher is supplied.
\<close>

definition matches_pattern :: "(string \<Rightarrow> string \<Rightarrow> bool) \<Rightarrow> string \<Rightarrow> string \<Rightarrow> bool" where
  "matches_pattern fnm name pat = fnm (rstrip_dots name) (rstrip_dots pat)"

text \<open>
  The normalisation the specification describes: a single trailing separator is removed,
  further trailing dots stay.
\<close>

definition strip_single_dot :: "string \<Rightarrow> string" where
  "strip_single_dot s = (if endswith_dot s then butlast s else s)"

definition matches_spec :: "(string \<Rightarrow> string \<Rightarrow> bool) \<Rightarrow> string \<Rightarrow> string \<Rightarrow> bool" where
  "matches_spec fnm domainName pat = fnm (strip_single_dot domainName) (strip_single_dot pat)"

subsection \<open>Data of the resolver\<close>

text \<open>
  An entry of \<^verbatim>\<open>global_bloqueos\<close>: a dict with the keys pattern and ip, and the keys
  start, end and enabled that the resolver reads with \<^verbatim>\<open>.get\<close> and a default
  (\<open>None\<close> is an absent key).
\<close>

record rule =
  pattern :: string
  ip :: string
  start :: "string option"
  end' :: "string option"
  enabled :: "bool option"

datatype rcode = NOERROR | REFUSED

datatype qtype = QTYPE_A | QTYPE_TXT

datatype rd = A "nat list" | TXT string

record RR =
  rname :: string
  rtype :: qtype
  rdata :: rd
  ttl :: nat

text \<open>A reply: the rcode of its header and its answer section.\<close>

record reply =
  rcode :: rcode
  rr :: "RR list"

text \<open>An entry of \<^verbatim>\<open>logs\<close>.\<close>

record log_entry =
  ts :: string
  client :: string
  query :: string
  action :: string

text \<open>The module's globals.\<close>

record state =
  global_bloqueos :: "rule list"
  maintenance_mode :: bool
  logs :: "log_entry list"
  estadisticas :: "string \<rightharpoonup> int"

text \<open>
  What one call of \<^verbatim>\<open>resolve\<close> takes from outside the module: the glob matcher, the
  system resolver \<^verbatim>\<open>socket.gethostbyname\<close> (\<open>Inl\<close> is the text of the exception it raises),
  the constructor \<^verbatim>\<open>A(...)\<close> of an address record (\<open>Inl\<close> is the text of the
  exception it raises on a string it cannot read), and the clock, read as a time of day
  and as the formatted timestamp.
\<close>

record env =
  fnmatch :: "string \<Rightarrow> string \<Rightarrow> bool"
  gethostbyname :: "string \<Rightarrow> string + string"
  A_init :: "string \<Rightarrow> string + nat list"
  clock_now :: time
  clock_ts :: string

text \<open>The parsed question: \<^verbatim>\<open>str(request.q.qname)\<close> and \<^verbatim>\<open>QTYPE[request.q.qtype]\<close>.\<close>

record request =
  qname :: string
  qtype_name :: string

text \<open>An exception that leaves \<^verbatim>\<open>resolve\<close>, with its text.\<close>

datatype exn = Raised string

definition LOG_LIMIT :: nat where
  "LOG_LIMIT = 100"

subsection \<open>Resolver DNS y actualizar estadisticas\<close>

text \<open>\<^verbatim>\<open>request.reply()\<close>: an answer to the question with rcode NOERROR and no records.\<close>

definition request_reply :: reply where
  "request_reply = \<lparr>rcode = NOERROR, rr = []\<rparr>"

definition add_answer :: "reply \<Rightarrow> RR \<Rightarrow> reply" where
  "add_answer rp r = rp\<lparr>rr := rr rp @ [r]\<rparr>"

text \<open>
  The scan of the \<^verbatim>\<open>for\<close> loop up to its \<^verbatim>\<open>break\<close>: the first item that no
  \<^verbatim>\<open>continue\<close> skips, or \<open>None\<close> when the loop runs to its \<^verbatim>\<open>else\<close>. The items
  skipped change nothing.
\<close>

fun find_rule :: "env \<Rightarrow> string \<Rightarrow> rule list \<Rightarrow> rule option" where
  "find_rule e domain [] = None"
| "find_rule e domain (item # rest) =
     (if \<not> (case enabled item of None \<Rightarrow> True | Some b \<Rightarrow> b) then find_rule e domain rest
      else
        (let pat = pattern item;
             start_s = (case start item of None \<Rightarrow> [] | Some x \<Rightarrow> x);
             end_s = (case end' item of None \<Rightarrow> [] | Some x \<Rightarrow> x)
         in if matches_pattern (fnmatch e) domain pat then
              (if start_s \<noteq> [] \<and> end_s \<noteq> [] \<and> \<not> dentro_de_franja (clock_now e) start_s end_s
               then find_rule e domain rest
               else Some item)
            else find_rule e domain rest))"

text \<open>
  The last three statements of \<^verbatim>\<open>resolve\<close>: the entry is appended, the list is cut to
  its last \<^verbatim>\<open>LOG_LIMIT\<close> entries when it is longer, and the reply is returned.
\<close>

definition log_append :: "log_entry list \<Rightarrow> log_entry \<Rightarrow> log_entry list" where
  "log_append l en =
     (let l' = l @ [en]
      in if length l' > LOG_LIMIT then drop (length l' - LOG_LIMIT) l' else l')"

definition log_and_return ::
    "env \<Rightarrow> request \<Rightarrow> string \<Rightarrow> reply \<Rightarrow> string \<Rightarrow> state \<Rightarrow> (exn + reply) \<times> state" where
  "log_and_return e request cl rp act s =
     (Inr rp,
      s\<lparr>logs := log_append (logs s)
           \<lparr>ts = clock_ts e, client = cl,
            query = qname request @ '' ('' @ qtype_name request @ '')'', action = act\<rparr>\<rparr>)"

text \<open>
  \<^verbatim>\<open>MiResolver.resolve(request, handler)\<close>. The handler is its client address, \<open>None\<close>
  when it has no such attribute. The result is the reply returned or the exception raised,
  and the globals as the call leaves them: a counter incremented before an exception stays
  incremented.
\<close>

definition resolve :: "env \<Rightarrow> request \<Rightarrow> string option \<Rightarrow> state \<Rightarrow> (exn + reply) \<times> state" where
  "resolve e request handler s =
     (let cl = (case handler of Some a \<Rightarrow> a | None \<Rightarrow> ''unknown'');
          domain = qname request
      in if maintenance_mode s then
           log_and_return e request cl
             (add_answer request_reply
                \<lparr>rname = domain, rtype = QTYPE_TXT,
                 rdata = TXT ''PabloDNS: Estamos en mantenimiento'', ttl = 60\<rparr>)
             ''maintenance mode'' s
         else
           (case find_rule e domain (global_bloqueos s) of
              Some item \<Rightarrow>
                (let pat = pattern item;
                     ip_redir = strip (ip item);
                     s1 = s\<lparr>estadisticas := (estadisticas s)
                            (pat \<mapsto> (case estadisticas s pat of None \<Rightarrow> 0 | Some n \<Rightarrow> n) + 1)\<rparr>
                 in if upper ip_redir = ''REFUSED'' then
                      log_and_return e request cl (request_reply\<lparr>rcode := REFUSED\<rparr>)
                        (''refused @ '' @ pat) s1
                    else
                      (case A_init e ip_redir of
                         Inl msg \<Rightarrow> (Inl (Raised msg), s1)
                       | Inr d \<Rightarrow>
                           log_and_return e request cl
                             (add_answer request_reply
                                \<lparr>rname = domain, rtype = QTYPE_A, rdata = A d, ttl = 60\<rparr>)
                             (''redirect to '' @ ip_redir @ '' @ '' @ pat) s1))
            | None \<Rightarrow>
                (case gethostbyname e (rstrip_dots domain) of
                   Inl msg \<Rightarrow> log_and_return e request cl request_reply (''error '' @ msg) s
                 | Inr real_ip \<Rightarrow>
                     (case A_init e real_ip of
                        Inl msg \<Rightarrow> log_and_return e request cl request_reply (''error '' @ msg) s
                      | Inr d \<Rightarrow>
                          log_and_return e request cl
                            (add_answer request_reply
                               \<lparr>rname = domain, rtype = QTYPE_A, rdata = A d, ttl = 60\<rparr>)
                            (''resolved external '' @ real_ip) s))))"

text \<open>
  A sequence of calls, each with its own environment, question and handler; the globals
  pass from one call to the next whether it returned or raised. The result lists what each
  call returned or raised.
\<close>

fun resolve_all ::
    "(env \<times> request \<times> string option) list \<Rightarrow> state \<Rightarrow> (exn + reply) list \<times> state" where
  "resolve_all [] s = ([], s)"
| "resolve_all ((e, request, handler) # calls) s =
     (let (out, s') = resolve e request handler s;
          (outs, s'') = resolve_all calls s'
      in (out # outs, s''))"

text \<open>
  A rule that is enabled, matches the domain and is active at the time of the call: the
  conditions the specification gives for a rule to win.
\<close>

definition eligible :: "env \<Rightarrow> string \<Rightarrow> rule \<Rightarrow> bool" where
  "eligible e domain r =
     (enabled r \<noteq> Some False \<and>
      matches_pattern (fnmatch e) domain (pattern r) \<and>
      (start r = None \<or> start r = Some [] \<or> end' r = None \<or> end' r = Some [] \<or>
       dentro_de_franja (clock_now e) (the (start r)) (the (end' r))))"

text \<open>Equality of two strings when the case of ASCII letters is ignored.\<close>

definition lower_char :: "char \<Rightarrow> char" where
  "lower_char c =
     (case map_of (zip ''ABCDEFGHIJKLMNOPQRSTUVWXYZ'' ''abcdefghijklmnopqrstuvwxyz'') c of
        Some u \<Rightarrow> u
      | None \<Rightarrow> c)"

definition equal_ignoring_case :: "string \<Rightarrow> string \<Rightarrow> bool" where
  "equal_ignoring_case a b = (map lower_char a = map lower_char b)"

subsection \<open>Rutas principales\<close>

text \<open>
  The administrative routes, as functions on the globals. The session check, the flash
  messages, the redirect and the copy written to the configuration file are left out.
  \<^verbatim>\<open>add_block\<close> takes the form fields pattern and ip and the optional fields start and end.
\<close>

definition add_block :: "string \<Rightarrow> string \<Rightarrow> string option \<Rightarrow> string option \<Rightarrow> state \<Rightarrow> state" where
  "add_block form_pattern form_ip form_start form_end s =
     (let pat = strip form_pattern;
          ip_s = strip form_ip;
          start_s = (case form_start of None \<Rightarrow> ''00:00'' | Some x \<Rightarrow> x);
          end_s = (case form_end of None \<Rightarrow> ''23:59'' | Some x \<Rightarrow> x);
          pat' = (if \<not> endswith_dot pat then pat @ ''.'' else pat)
      in s\<lparr>global_bloqueos := global_bloqueos s @
            [\<lparr>pattern = pat', ip = ip_s, start = Some start_s, end' = Some end_s,
              enabled = Some True\<rparr>]\<rparr>)"

text \<open>\<^verbatim>\<open>remove_block\<close>; the argument is \<^verbatim>\<open>request.args.get('pattern')\<close>, \<open>None\<close> when absent.\<close>

definition remove_block :: "string option \<Rightarrow> state \<Rightarrow> state" where
  "remove_block pat s =
     s\<lparr>global_bloqueos := filter (\<lambda>i. Some (pattern i) \<noteq> pat) (global_bloqueos s)\<rparr>"

text \<open>The loop of \<^verbatim>\<open>toggle_rule\<close>: the first item with the pattern is flipped.\<close>

fun toggle_first :: "string option \<Rightarrow> rule list \<Rightarrow> rule list" where
  "toggle_first pat [] = []"
| "toggle_first pat (item # rest) =
     (if Some (pattern item) = pat
      then item\<lparr>enabled := Some (\<not> (case enabled item of None \<Rightarrow> True | Some b \<Rightarrow> b))\<rparr> # rest
      else item # toggle_first pat rest)"

definition toggle_rule :: "string option \<Rightarrow> state \<Rightarrow> state" where
  "toggle_rule pat s = s\<lparr>global_bloqueos := toggle_first pat (global_bloqueos s)\<rparr>"

definition toggle_maintenance :: "state \<Rightarrow> state" where
  "toggle_maintenance s = s\<lparr>maintenance_mode := \<not> maintenance_mode s\<rparr>"

definition reset_stats :: "state \<Rightarrow> state" where
  "reset_stats s = s\<lparr>estadisticas := Map.empty\<rparr>"

subsection \<open>Concrete collaborators for evaluating the resolver\<close>

text \<open>
  A glob matcher for patterns without bracket expressions: \<open>*\<close> matches any run of
  characters, \<open>?\<close> one character, any other character itself, case-sensitively, as
  \<^verbatim>\<open>fnmatch.fnmatch\<close> does on such patterns on a POSIX system.
\<close>

fun glob :: "string \<Rightarrow> string \<Rightarrow> bool" where
  "glob [] [] = True"
| "glob (c # cs) [] = False"
| "glob [] (p # ps) = (p = CHR ''*'' \<and> glob [] ps)"
| "glob (c # cs) (p # ps) =
     (if p = CHR ''*'' then glob (c # cs) ps \<or> glob cs (p # ps)
      else if p = CHR ''?'' then glob cs ps
      else c = p \<and> glob cs ps)"

text \<open>\<^verbatim>\<open>s.split('.')\<close>.\<close>

fun split_dots :: "string \<Rightarrow> string list" where
  "split_dots [] = [[]]"
| "split_dots (c # cs) =
     (if c = CHR ''.'' then [] # split_dots cs
      else (case split_dots cs of [] \<Rightarrow> [[c]] | w # ws \<Rightarrow> (c # w) # ws))"

text \<open>A decimal literal of ASCII digits, read most significant digit first.\<close>

fun decimal :: "nat \<Rightarrow> string \<Rightarrow> nat option" where
  "decimal acc [] = Some acc"
| "decimal acc (c # cs) =
     (case digit_val c of None \<Rightarrow> None | Some d \<Rightarrow> decimal (10 * acc + d) cs)"

text \<open>
  A stand-in for the constructor \<^verbatim>\<open>A(...)\<close> of an address record: it reads a dotted
  quad of decimal numbers between 0 and 255, written in ASCII digits, and raises on any
  other string, with the exception text abbreviated.
\<close>

definition dotted_quad :: "string \<Rightarrow> string + nat list" where
  "dotted_quad s =
     (let parts = split_dots (rstrip_dots s)
      in if \<exists>w \<in> set parts. w = [] \<or> decimal 0 w = None
         then Inl (''invalid literal for int() with base 10'')
         else if length parts \<noteq> 4 then Inl (''Attribute must be tuple with 4 elements'')
         else if \<exists>w \<in> set parts. 255 < the (decimal 0 w)
         then Inl (''Attribute must be between 0-255'')
         else Inr (map (\<lambda>w. the (decimal 0 w)) parts))"

definition example_hosts :: "string \<Rightarrow> string + string" where
  "example_hosts h =
     (if h = ''openai.com'' then Inr ''104.18.33.45''
      else Inl ''[Errno -2] Name or service not known'')"

definition example_env :: env where
  "example_env =
     \<lparr>fnmatch = glob, gethostbyname = example_hosts, A_init = dotted_quad,
      clock_now = \<lparr>hour = 23, minute = 30, second = 15, microsecond = 250\<rparr>,
      clock_ts = ''2024-05-01 23:30:15''\<rparr>"

definition ads_rule :: rule where
  "ads_rule = \<lparr>pattern = ''*.ads.example.'', ip = ''0.0.0.0'', start = Some [],
               end' = Some [], enabled = Some True\<rparr>"

definition night_rule :: rule where
  "night_rule = \<lparr>pattern = ''x.ads.*'', ip = ''refused'', start = Some ''22:00'',
                 end' = Some ''06:00'', enabled = Some True\<rparr>"

definition broken_rule :: rule where
  "broken_rule = \<lparr>pattern = ''bad.example.'', ip = ''abc'', start = Some ''00:00'',
                  end' = Some ''23:59'', enabled = Some True\<rparr>"

definition example_state :: "rule list \<Rightarrow> bool \<Rightarrow> state" where
  "example_state rules m =
     \<lparr>global_bloqueos = rules, maintenance_mode = m, logs = [], estadisticas = Map.empty\<rparr>"

section \<open>Properties\<close>

subsection \<open>The time window\<close>


lemma lex2: "(b::nat) < k \<Longrightarrow> d < k \<Longrightarrow> (a * k + b \<le> c * k + d) = (a < c \<or> (a = c \<and> b \<le> d))"
proof (cases "a < c")
  case True
  assume "b < k" "d < k"
  from True have "Suc a \<le> c" by simp
  then have "Suc a * k \<le> c * k" by (rule mult_le_mono1)
  then have "a * k + k \<le> c * k" by simp
  with \<open>b < k\<close> True show ?thesis by simp
next
  case False
  assume bk: "b < k" and dk: "d < k"
  show ?thesis
  proof (cases "a = c")
    case True then show ?thesis by simp
  next
    case ne: False
    with False have "c < a" by simp
    then have "Suc c \<le> a" by simp
    then have "Suc c * k \<le> a * k" by (rule mult_le_mono1)
    then have "c * k + k \<le> a * k" by simp
    with dk False ne show ?thesis by simp
  qed
qed


lemma lex2_lt: "(b::nat) < k \<Longrightarrow> d < k \<Longrightarrow> (a * k + b < c * k + d) = (a < c \<or> (a = c \<and> b < d))"
  using lex2 [of d k b c a] by auto

lemma lex2_eq: "(b::nat) < k \<Longrightarrow> d < k \<Longrightarrow> (a * k + b = c * k + d) = (a = c \<and> b = d)"
  using lex2 [of d k b c a] lex2 [of b k d a c] by auto

lemma time_le_micros:
  assumes "minute a < 60" "second a < 60" "microsecond a < 1000000"
    and "minute b < 60" "second b < 60" "microsecond b < 1000000"
  shows "time_le a b = (micros a \<le> micros b)"
  unfolding micros_def time_le_def
    lex2 [OF assms(3,6)] lex2_lt [OF assms(2,5)] lex2_eq [OF assms(2,5)]
    lex2_lt [OF assms(1,4)] lex2_eq [OF assms(1,4)]
  by blast

lemma digit_val_le: "digit_val c = Some d \<Longrightarrow> d \<le> 9"
  by (auto simp: digit_val_def Let_def split: if_splits)

lemma M_match_bound: "M_match s = Some (m, r) \<Longrightarrow> m < 60"
  by (induction s rule: M_match.induct)
    (auto split: option.splits if_splits dest!: digit_val_le)

lemma H_matches_bound:
  assumes "(h, r) \<in> set (H_matches s)"
  shows "h < 24"
proof (cases s rule: H_matches.cases)
  case 1
  with assms show ?thesis by simp
next
  case (2 c)
  with assms have "digit_val c = Some h"
    by (cases "digit_val c") auto
  then show ?thesis using digit_val_le [of c h] by simp
next
  case (3 c c' r')
  show ?thesis
  proof (cases "digit_val c")
    case None
    with 3 assms show ?thesis by simp
  next
    case (Some d)
    then have d: "d \<le> 9" by (rule digit_val_le)
    show ?thesis
    proof (cases "digit_val c'")
      case None
      with 3 Some assms d show ?thesis by simp
    next
      case d': (Some d')
      then have "d' \<le> 9" by (rule digit_val_le)
      with 3 Some d' assms d show ?thesis by (auto split: if_splits)
    qed
  qed
qed

lemma HM_search_bound:
  "HM_search alts = Some (h, m, r) \<Longrightarrow> (\<forall>(h', r') \<in> set alts. h' < 24) \<Longrightarrow> h < 24 \<and> m < 60"
  by (induction alts rule: HM_search.induct)
    (auto split: list.splits if_splits option.splits dest: M_match_bound)

lemma strptime_HM_valid: "strptime_HM s = Some t \<Longrightarrow> valid_time t"
proof -
  assume a: "strptime_HM s = Some t"
  then obtain h m where hm: "HM_search (H_matches s) = Some (h, m, [])"
    and t: "t = \<lparr>hour = h, minute = m, second = 0, microsecond = 0\<rparr>"
    by (auto simp: strptime_HM_def split: option.splits if_splits)
  have "\<forall>(h', r') \<in> set (H_matches s). h' < 24" using H_matches_bound by auto
  with hm have "h < 24 \<and> m < 60" by (rule HM_search_bound)
  then show ?thesis by (simp add: t valid_time_def)
qed

lemma strptime_HM_empty: "strptime_HM [] = None"
  by (simp add: strptime_HM_def)



lemma digit_val_chars:
  "digit_val (CHR ''0'') = Some 0" "digit_val (CHR ''1'') = Some 1" "digit_val (CHR ''2'') = Some 2"
  "digit_val (CHR ''3'') = Some 3" "digit_val (CHR ''4'') = Some 4" "digit_val (CHR ''5'') = Some 5"
  "digit_val (CHR ''6'') = Some 6" "digit_val (CHR ''7'') = Some 7" "digit_val (CHR ''8'') = Some 8"
  "digit_val (CHR ''9'') = Some 9"
  by (simp_all add: digit_val_def)

lemma of_char_digit:
  assumes "48 \<le> (of_char c :: nat)" and "(of_char c :: nat) \<le> 57"
  shows "c \<in> set ''0123456789''"
proof -
  define n :: nat where "n = of_char c"
  from assms have "48 \<le> n" "n \<le> 57" by (simp_all add: n_def)
  then have "n = 48 \<or> n = 49 \<or> n = 50 \<or> n = 51 \<or> n = 52 \<or> n = 53 \<or> n = 54 \<or>
      n = 55 \<or> n = 56 \<or> n = 57" by arith
  then have "(of_char c :: nat) \<in> {48, 49, 50, 51, 52, 53, 54, 55, 56, 57}"
    unfolding n_def by blast
  then have "(of_char c :: nat) \<in> of_char ` set ''0123456789''" by simp
  then obtain d where "d \<in> set ''0123456789''" and "(of_char c :: nat) = of_char d" by blast
  then show ?thesis by simp
qed

lemma digit_val_decimal_digit: "digit_val c = decimal_digit c"
proof (cases "decimal_digit c")
  case None
  then have "c \<notin> set ''0123456789''"
    unfolding decimal_digit_def by (simp only: map_of_eq_None_iff) simp
  then have "\<not> (48 \<le> (of_char c :: nat) \<and> (of_char c :: nat) \<le> 57)"
    using of_char_digit by blast
  then have "digit_val c = None" by (simp add: digit_val_def Let_def)
  with None show ?thesis by simp
next
  case (Some d)
  then have "(c, d) \<in> set (zip ''0123456789'' [0, 1, 2, 3, 4, 5, 6, 7, 8, 9])"
    unfolding decimal_digit_def by (rule map_of_SomeD)
  then have "(c, d) \<in> {(CHR ''0'', 0), (CHR ''1'', 1), (CHR ''2'', 2), (CHR ''3'', 3),
      (CHR ''4'', 4), (CHR ''5'', 5), (CHR ''6'', 6), (CHR ''7'', 7), (CHR ''8'', 8),
      (CHR ''9'', 9)}"
    by simp
  then have "digit_val c = Some d"
    by (elim insertE emptyE) (simp_all add: digit_val_chars)
  with Some show ?thesis by simp
qed


lemma decimal_digit_le: "decimal_digit c = Some d \<Longrightarrow> d \<le> 9"
  using digit_val_le [of c d] by (simp add: digit_val_decimal_digit)

lemma decimal_digit_colon: "decimal_digit (CHR '':'') = None"
  by (simp add: decimal_digit_def)

text \<open>The minute group followed by the end of the string.\<close>

lemma M_match_short_number:
  "(case M_match r of None \<Rightarrow> None | Some (m, rest) \<Rightarrow> if rest = [] then Some m else None) =
   (case short_number r of None \<Rightarrow> None | Some m \<Rightarrow> if m < 60 then Some m else None)"
proof (cases r rule: M_match.cases)
  case 1
  then show ?thesis by simp
next
  case (2 c)
  then show ?thesis
    by (auto simp: digit_val_decimal_digit split: option.splits dest: decimal_digit_le)
next
  case (3 c c' r')
  show ?thesis
  proof (cases "decimal_digit c")
    case None
    with 3 show ?thesis by (cases r') (simp_all add: digit_val_decimal_digit)
  next
    case (Some d)
    show ?thesis
    proof (cases "decimal_digit c'")
      case None
      with 3 Some show ?thesis by (cases r') (simp_all add: digit_val_decimal_digit)
    next
      case d': (Some d')
      then have "d' \<le> 9" by (rule decimal_digit_le)
      with 3 Some d' show ?thesis by (cases r') (auto simp: digit_val_decimal_digit)
    qed
  qed
qed


lemma short_number_nondigit_hd: "decimal_digit c = None \<Longrightarrow> short_number (c # w) = None"
proof (cases w)
  case Nil
  assume "decimal_digit c = None"
  with Nil show ?thesis by simp
next
  case (Cons b w')
  assume "decimal_digit c = None"
  with Cons show ?thesis by (cases w') simp_all
qed

lemma short_number_nondigit_snd: "decimal_digit c' = None \<Longrightarrow> short_number (c # c' # w) = None"
  by (cases w) (simp_all split: option.splits)

lemma decimal_digit_not_colon: "decimal_digit c = Some d \<Longrightarrow> c \<noteq> CHR '':''"
  using decimal_digit_colon by auto

lemma hour_minute_no_hour:
  "short_number (takeWhile (\<lambda>c. c \<noteq> CHR '':'') s) = None \<Longrightarrow> hour_minute s = None"
  by (simp add: hour_minute_def split: list.splits)

text \<open>The parsed value of the source's parser, as a pair.\<close>

lemma strptime_HM_pair:
  "strptime_HM s =
     (case (case HM_search (H_matches s) of
              None \<Rightarrow> None
            | Some (h, m, rest) \<Rightarrow> if rest = [] then Some (h, m) else None) of
        None \<Rightarrow> None
      | Some (h, m) \<Rightarrow> Some \<lparr>hour = h, minute = m, second = 0, microsecond = 0\<rparr>)"
  by (simp add: strptime_HM_def split: option.splits)

lemma HM_search_colon:
  "(case HM_search [(h, CHR '':'' # r)] of
      None \<Rightarrow> None
    | Some (h', m, rest) \<Rightarrow> if rest = [] then Some (h', m) else None) =
   (case short_number r of None \<Rightarrow> None | Some m \<Rightarrow> if m < 60 then Some (h, m) else None)"
proof -
  have "(case HM_search [(h, CHR '':'' # r)] of
      None \<Rightarrow> None
    | Some (h', m, rest) \<Rightarrow> if rest = [] then Some (h', m) else None) =
    (case (case M_match r of None \<Rightarrow> None | Some (m, rest) \<Rightarrow> if rest = [] then Some m else None) of
       None \<Rightarrow> None | Some m \<Rightarrow> Some (h, m))"
    by (simp split: option.splits)
  then show ?thesis
    unfolding M_match_short_number by (simp split: option.splits)
qed

lemma HM_search_hour_minute:
  "(case HM_search (H_matches s) of
      None \<Rightarrow> None
    | Some (h, m, rest) \<Rightarrow> if rest = [] then Some (h, m) else None) = hour_minute s"
proof (cases s rule: H_matches.cases)
  case 1
  then show ?thesis by (simp add: hour_minute_def)
next
  case (2 c)
  then show ?thesis
    by (cases "c = CHR '':''") (simp_all add: hour_minute_def split: option.splits)
next
  case (3 c c' r)
  show ?thesis
  proof (cases "decimal_digit c")
    case None
    then have "short_number (takeWhile (\<lambda>c. c \<noteq> CHR '':'') s) = None"
      unfolding 3 by (cases "c = CHR '':''") (simp_all add: short_number_nondigit_hd)
    then have "hour_minute s = None" by (rule hour_minute_no_hour)
    moreover have "H_matches s = []"
      unfolding 3 using None by (simp add: digit_val_decimal_digit)
    ultimately show ?thesis by simp
  next
    case (Some d)
    then have d9: "d \<le> 9" and cc: "c \<noteq> CHR '':''"
      using decimal_digit_le decimal_digit_not_colon by auto
    show ?thesis
    proof (cases "decimal_digit c'")
      case None
      show ?thesis
      proof (cases "c' = CHR '':''")
        case True
        have "hour_minute s =
            (case short_number r of None \<Rightarrow> None | Some m \<Rightarrow> if m < 60 then Some (d, m) else None)"
          unfolding 3 True using cc Some d9 by (simp add: hour_minute_def split: option.splits)
        moreover have "H_matches s = [(d, CHR '':'' # r)]"
          unfolding 3 True using Some None True by (simp add: digit_val_decimal_digit)
        ultimately show ?thesis by (simp only: HM_search_colon)
      next
        case False
        have "short_number (takeWhile (\<lambda>c. c \<noteq> CHR '':'') s) = None"
          unfolding 3 using cc False None by (simp add: short_number_nondigit_snd)
        then have "hour_minute s = None" by (rule hour_minute_no_hour)
        moreover have "H_matches s = [(d, c' # r)]"
          unfolding 3 using Some None by (simp add: digit_val_decimal_digit)
        ultimately show ?thesis using False by simp
      qed
    next
      case d': (Some d')
      then have d'9: "d' \<le> 9" and c'c: "c' \<noteq> CHR '':''"
        using decimal_digit_le decimal_digit_not_colon by auto
      have H: "H_matches s =
          (if d = 2 \<and> d' \<le> 3 then [(10 * d + d', r)] else []) @
          (if d \<le> 1 then [(10 * d + d', r)] else []) @ [(d, c' # r)]"
        unfolding 3 using Some d' by (simp add: digit_val_decimal_digit)
      have lt: "(10 * d + d' < 24) = ((d = 2 \<and> d' \<le> 3) \<or> d \<le> 1)"
        using d9 d'9 by arith
      show ?thesis
      proof (cases r)
        case Nil
        then show ?thesis unfolding H using cc c'c by (simp add: hour_minute_def 3)
      next
        case (Cons x r2)
        show ?thesis
        proof (cases "x = CHR '':''")
          case False
          have "short_number (takeWhile (\<lambda>c. c \<noteq> CHR '':'') s) = None"
            unfolding 3 Cons using cc c'c False by simp
          then have "hour_minute s = None" by (rule hour_minute_no_hour)
          then show ?thesis unfolding H using c'c False Cons by simp
        next
          case True
          have hm: "hour_minute s =
              (if 10 * d + d' < 24
               then (case short_number r2 of None \<Rightarrow> None
                     | Some m \<Rightarrow> if m < 60 then Some (10 * d + d', m) else None)
               else None)"
            unfolding 3 Cons True using cc c'c Some d'
            by (simp add: hour_minute_def split: option.splits)
          show ?thesis
          proof (cases "10 * d + d' < 24")
            case no: False
            then have "H_matches s = [(d, c' # r)]" using H lt by simp
            with no hm c'c show ?thesis by simp
          next
            case yes: True
            have "HM_search (H_matches s) = HM_search [(10 * d + d', CHR '':'' # r2)]"
            proof (cases "d \<le> 1")
              case True
              then show ?thesis unfolding H Cons \<open>x = CHR '':''\<close> using c'c
                by (simp split: option.splits)
            next
              case False
              with yes lt have "d = 2 \<and> d' \<le> 3" by simp
              then show ?thesis unfolding H Cons \<open>x = CHR '':''\<close> using c'c
                by (simp split: option.splits)
            qed
            then show ?thesis using hm yes by (simp only: HM_search_colon) simp
          qed
        qed
      qed
    qed
  qed
qed

lemma strptime_HM_hour_minute:
  "strptime_HM s =
     (case hour_minute s of
        None \<Rightarrow> None
      | Some (h, m) \<Rightarrow> Some \<lparr>hour = h, minute = m, second = 0, microsecond = 0\<rparr>)"
  unfolding strptime_HM_pair HM_search_hour_minute ..


lemma hour_minute_bounds: "hour_minute s = Some (h, m) \<Longrightarrow> h < 24 \<and> m < 60"
  by (auto simp: hour_minute_def split: list.splits option.splits if_splits)

lemma hour_minute_empty: "hour_minute [] = None"
  by (simp add: hour_minute_def)

text \<open>
  C3. For every start string, end string and valid time of day, the time-window check of
  the source equals the reference definition: active when either string is empty or does
  not parse as hour:minute, active iff start <= now <= end when start <= end, and active
  iff now >= start or now <= end when start > end.
\<close>

theorem dentro_de_franja_refines_spec:
  assumes "valid_time now"
  shows "dentro_de_franja now start_str end_str = isActive_spec start_str end_str now"
proof (cases "hour_minute start_str")
  case None
  then show ?thesis
    by (simp add: dentro_de_franja_def isActive_spec_def strptime_HM_hour_minute)
next
  case (Some start_hm)
  obtain sh sm where shm: "start_hm = (sh, sm)" by (cases start_hm)
  show ?thesis
  proof (cases "hour_minute end_str")
    case None
    then show ?thesis using Some
      by (simp add: dentro_de_franja_def isActive_spec_def strptime_HM_hour_minute shm)
  next
    case e: (Some end_hm)
    obtain eh em where ehm: "end_hm = (eh, em)" by (cases end_hm)
    let ?s = "\<lparr>hour = sh, minute = sm, second = 0, microsecond = 0\<rparr>"
    let ?e = "\<lparr>hour = eh, minute = em, second = 0, microsecond = 0\<rparr>"
    have ps: "strptime_HM start_str = Some ?s" and pe: "strptime_HM end_str = Some ?e"
      using Some e by (simp_all add: strptime_HM_hour_minute shm ehm)
    have bs: "sh < 24 \<and> sm < 60" using Some shm hour_minute_bounds by simp
    have be: "eh < 24 \<and> em < 60" using e ehm hour_minute_bounds by simp
    have ne: "start_str \<noteq> []" "end_str \<noteq> []" using Some e hour_minute_empty by auto
    have ms: "micros ?s = hm_micros start_hm" and me: "micros ?e = hm_micros end_hm"
      by (simp_all add: micros_def hm_micros_def shm ehm)
    have 1: "time_le ?s ?e = (hm_micros start_hm \<le> hm_micros end_hm)"
      using bs be time_le_micros [of ?s ?e] by (simp add: ms me)
    have 2: "time_le ?s now = (hm_micros start_hm \<le> micros now)"
      using bs assms time_le_micros [of ?s now] by (simp add: ms valid_time_def)
    have 3: "time_le now ?e = (micros now \<le> hm_micros end_hm)"
      using be assms time_le_micros [of now ?e] by (simp add: me valid_time_def)
    show ?thesis
      using Some e ne
      by (simp add: dentro_de_franja_def isActive_spec_def ps pe 1 2 3 Let_def)
  qed
qed

theorem dentro_de_franja_refines_spec_witness:
  "valid_time \<lparr>hour = 23, minute = 30, second = 15, microsecond = 250\<rparr> \<and>
   dentro_de_franja \<lparr>hour = 23, minute = 30, second = 15, microsecond = 250\<rparr> ''22:00'' ''06:00'' \<and>
   dentro_de_franja \<lparr>hour = 2, minute = 0, second = 0, microsecond = 0\<rparr> ''22:00'' ''06:00'' \<and>
   \<not> dentro_de_franja \<lparr>hour = 12, minute = 0, second = 0, microsecond = 0\<rparr> ''22:00'' ''06:00'' \<and>
   dentro_de_franja \<lparr>hour = 6, minute = 0, second = 0, microsecond = 0\<rparr> ''22:00'' ''06:00'' \<and>
   \<not> dentro_de_franja \<lparr>hour = 6, minute = 0, second = 0, microsecond = 1\<rparr> ''22:00'' ''06:00'' \<and>
   dentro_de_franja \<lparr>hour = 9, minute = 0, second = 0, microsecond = 0\<rparr> ''9:00'' ''17:30'' \<and>
   \<not> dentro_de_franja \<lparr>hour = 8, minute = 59, second = 59, microsecond = 999999\<rparr> ''9:00'' ''17:30'' \<and>
   dentro_de_franja \<lparr>hour = 12, minute = 0, second = 0, microsecond = 0\<rparr> ''bad'' ''06:00'' \<and>
   dentro_de_franja \<lparr>hour = 12, minute = 0, second = 0, microsecond = 0\<rparr> ''22:00'' ''24:00'' \<and>
   dentro_de_franja \<lparr>hour = 12, minute = 0, second = 0, microsecond = 0\<rparr> [] ''06:00''"
proof -
  have v: "valid_time \<lparr>hour = 23, minute = 30, second = 15, microsecond = 250\<rparr>"
    "valid_time \<lparr>hour = 2, minute = 0, second = 0, microsecond = 0\<rparr>"
    "valid_time \<lparr>hour = 12, minute = 0, second = 0, microsecond = 0\<rparr>"
    "valid_time \<lparr>hour = 6, minute = 0, second = 0, microsecond = 0\<rparr>"
    "valid_time \<lparr>hour = 6, minute = 0, second = 0, microsecond = 1\<rparr>"
    "valid_time \<lparr>hour = 9, minute = 0, second = 0, microsecond = 0\<rparr>"
    "valid_time \<lparr>hour = 8, minute = 59, second = 59, microsecond = 999999\<rparr>"
    by (simp_all add: valid_time_def)
  have p: "hour_minute ''22:00'' = Some (22, 0)" "hour_minute ''06:00'' = Some (6, 0)"
    "hour_minute ''9:00'' = Some (9, 0)" "hour_minute ''17:30'' = Some (17, 30)"
    "hour_minute ''bad'' = None" "hour_minute ''24:00'' = None"
    by (simp_all add: hour_minute_def decimal_digit_def)
  have a: "isActive_spec ''22:00'' ''06:00'' \<lparr>hour = 23, minute = 30, second = 15, microsecond = 250\<rparr>"
    "isActive_spec ''22:00'' ''06:00'' \<lparr>hour = 2, minute = 0, second = 0, microsecond = 0\<rparr>"
    "\<not> isActive_spec ''22:00'' ''06:00'' \<lparr>hour = 12, minute = 0, second = 0, microsecond = 0\<rparr>"
    "isActive_spec ''22:00'' ''06:00'' \<lparr>hour = 6, minute = 0, second = 0, microsecond = 0\<rparr>"
    "\<not> isActive_spec ''22:00'' ''06:00'' \<lparr>hour = 6, minute = 0, second = 0, microsecond = 1\<rparr>"
    "isActive_spec ''9:00'' ''17:30'' \<lparr>hour = 9, minute = 0, second = 0, microsecond = 0\<rparr>"
    "\<not> isActive_spec ''9:00'' ''17:30'' \<lparr>hour = 8, minute = 59, second = 59, microsecond = 999999\<rparr>"
    "isActive_spec ''bad'' ''06:00'' \<lparr>hour = 12, minute = 0, second = 0, microsecond = 0\<rparr>"
    "isActive_spec ''22:00'' ''24:00'' \<lparr>hour = 12, minute = 0, second = 0, microsecond = 0\<rparr>"
    "isActive_spec [] ''06:00'' \<lparr>hour = 12, minute = 0, second = 0, microsecond = 0\<rparr>"
    by (simp_all add: isActive_spec_def p hm_micros_def micros_def)
  note r = dentro_de_franja_refines_spec
  from v(1) a(1) r [OF v(1), of "''22:00''" "''06:00''"]
    a(2) r [OF v(2), of "''22:00''" "''06:00''"]
    a(3) r [OF v(3), of "''22:00''" "''06:00''"]
    a(4) r [OF v(4), of "''22:00''" "''06:00''"]
    a(5) r [OF v(5), of "''22:00''" "''06:00''"]
    a(6) r [OF v(6), of "''9:00''" "''17:30''"]
    a(7) r [OF v(7), of "''9:00''" "''17:30''"]
    a(8) r [OF v(3), of "''bad''" "''06:00''"]
    a(9) r [OF v(3), of "''22:00''" "''24:00''"]
    a(10) r [OF v(3), of "[]" "''06:00''"]
  show ?thesis by blast
qed

subsection \<open>Maintenance mode\<close>



subsection \<open>The scan of the rule list\<close>

lemma find_rule_skip: "\<not> eligible e d r \<Longrightarrow> find_rule e d (r # rest) = find_rule e d rest"
  by (cases "enabled r"; cases "start r"; cases "end' r") (auto simp: eligible_def Let_def)

lemma find_rule_hit: "eligible e d r \<Longrightarrow> find_rule e d (r # rest) = Some r"
  by (cases "enabled r"; cases "start r"; cases "end' r") (auto simp: eligible_def Let_def)

lemma find_rule_append:
  "\<forall>r \<in> set pre. \<not> eligible e d r \<Longrightarrow> find_rule e d (pre @ rest) = find_rule e d rest"
proof (induction pre)
  case Nil
  show ?case by simp
next
  case (Cons r pre)
  then have "find_rule e d ((r # pre) @ rest) = find_rule e d (pre @ rest)"
    using find_rule_skip [of e d r "pre @ rest"] by simp
  with Cons show ?case by simp
qed

lemma find_rule_first:
  assumes "\<forall>r \<in> set pre. \<not> eligible e d r" and "eligible e d r1"
  shows "find_rule e d (pre @ r1 # rest) = Some r1"
  using find_rule_append [OF assms(1), of "r1 # rest"] find_rule_hit [OF assms(2), of rest]
  by simp

lemma find_rule_none:
  "\<forall>r \<in> set rules. \<not> eligible e d r \<Longrightarrow> find_rule e d rules = None"
  using find_rule_append [of rules e d "[]"] by simp

lemma resolve_rule:
  assumes "\<not> maintenance_mode s" and "find_rule e (qname request) (global_bloqueos s) = Some item"
  shows "resolve e request handler s =
    (let cl = (case handler of Some a \<Rightarrow> a | None \<Rightarrow> ''unknown'');
         s1 = s\<lparr>estadisticas := (estadisticas s)
               (pattern item \<mapsto> (case estadisticas s (pattern item) of None \<Rightarrow> 0 | Some n \<Rightarrow> n) + 1)\<rparr>
     in if upper (strip (ip item)) = ''REFUSED'' then
          log_and_return e request cl (request_reply\<lparr>rcode := REFUSED\<rparr>)
            (''refused @ '' @ pattern item) s1
        else
          (case A_init e (strip (ip item)) of
             Inl msg \<Rightarrow> (Inl (Raised msg), s1)
           | Inr d \<Rightarrow>
               log_and_return e request cl
                 (add_answer request_reply
                    \<lparr>rname = qname request, rtype = QTYPE_A, rdata = A d, ttl = 60\<rparr>)
                 (''redirect to '' @ strip (ip item) @ '' @ '' @ pattern item) s1))"
  using assms by (simp add: resolve_def Let_def)

subsection \<open>First match wins\<close>

text \<open>
  C2. When the rule list holds two eligible rules (enabled, matching the queried domain,
  active at the time of the call), the earlier one being the first eligible rule of the
  list, resolve chooses that rule: the reply is the one its target gives, the counter of
  its pattern goes up by one and no other counter changes, and the outcome is the one
  resolve gives when that rule is the only rule, so no later rule is evaluated or counted.
\<close>

theorem first_match_wins:
  assumes "\<not> maintenance_mode s"
    and "global_bloqueos s = pre @ r1 # mid @ r2 # post"
    and "\<forall>r \<in> set pre. \<not> eligible e (qname request) r"
    and "eligible e (qname request) r1"
    and "eligible e (qname request) r2"
  shows "fst (resolve e request handler s) =
      (if upper (strip (ip r1)) = ''REFUSED'' then Inr \<lparr>rcode = REFUSED, rr = []\<rparr>
       else (case A_init e (strip (ip r1)) of
               Inl msg \<Rightarrow> Inl (Raised msg)
             | Inr d \<Rightarrow> Inr \<lparr>rcode = NOERROR,
                              rr = [\<lparr>rname = qname request, rtype = QTYPE_A,
                                     rdata = A d, ttl = 60\<rparr>]\<rparr>))
    \<and> estadisticas (snd (resolve e request handler s)) =
        (estadisticas s)(pattern r1 \<mapsto>
           (case estadisticas s (pattern r1) of None \<Rightarrow> 0 | Some n \<Rightarrow> n) + 1)
    \<and> resolve e request handler s =
        (fst (resolve e request handler (s\<lparr>global_bloqueos := [r1]\<rparr>)),
         (snd (resolve e request handler (s\<lparr>global_bloqueos := [r1]\<rparr>)))
           \<lparr>global_bloqueos := global_bloqueos s\<rparr>)"
proof -
  have f: "find_rule e (qname request) (global_bloqueos s) = Some r1"
    using assms(2) find_rule_first [OF assms(3,4)] by simp
  have f1: "find_rule e (qname request) (global_bloqueos (s\<lparr>global_bloqueos := [r1]\<rparr>)) = Some r1"
    using find_rule_hit [OF assms(4)] by simp
  have m1: "\<not> maintenance_mode (s\<lparr>global_bloqueos := [r1]\<rparr>)"
    using assms(1) by simp
  note R = resolve_rule [OF assms(1) f, of handler]
  note R1 = resolve_rule [OF m1 f1, of handler]
  have a: "fst (resolve e request handler s) =
      (if upper (strip (ip r1)) = ''REFUSED'' then Inr \<lparr>rcode = REFUSED, rr = []\<rparr>
       else (case A_init e (strip (ip r1)) of
               Inl msg \<Rightarrow> Inl (Raised msg)
             | Inr d \<Rightarrow> Inr \<lparr>rcode = NOERROR,
                              rr = [\<lparr>rname = qname request, rtype = QTYPE_A,
                                     rdata = A d, ttl = 60\<rparr>]\<rparr>))"
    unfolding R
    by (simp add: Let_def log_and_return_def add_answer_def request_reply_def split: sum.splits)
  have b: "estadisticas (snd (resolve e request handler s)) =
        (estadisticas s)(pattern r1 \<mapsto>
           (case estadisticas s (pattern r1) of None \<Rightarrow> 0 | Some n \<Rightarrow> n) + 1)"
    unfolding R
    by (simp add: Let_def log_and_return_def split: sum.splits)
  have c: "resolve e request handler s =
        (fst (resolve e request handler (s\<lparr>global_bloqueos := [r1]\<rparr>)),
         (snd (resolve e request handler (s\<lparr>global_bloqueos := [r1]\<rparr>)))
           \<lparr>global_bloqueos := global_bloqueos s\<rparr>)"
    unfolding R R1
    by (simp add: Let_def log_and_return_def split: sum.splits)
  from a b c show ?thesis by blast
qed


theorem first_match_wins_witness:
  "\<not> maintenance_mode (example_state [ads_rule, night_rule] False) \<and>
   global_bloqueos (example_state [ads_rule, night_rule] False) = [] @ ads_rule # [] @ night_rule # [] \<and>
   eligible example_env ''x.ads.example.'' ads_rule \<and>
   eligible example_env ''x.ads.example.'' night_rule \<and>
   fst (resolve example_env \<lparr>qname = ''x.ads.example.'', qtype_name = ''A''\<rparr> (Some ''10.0.0.7'')
         (example_state [ads_rule, night_rule] False)) =
     Inr \<lparr>rcode = NOERROR,
          rr = [\<lparr>rname = ''x.ads.example.'', rtype = QTYPE_A, rdata = A [0, 0, 0, 0], ttl = 60\<rparr>]\<rparr> \<and>
   estadisticas (snd (resolve example_env \<lparr>qname = ''x.ads.example.'', qtype_name = ''A''\<rparr>
         (Some ''10.0.0.7'') (example_state [ads_rule, night_rule] False))) =
     [''*.ads.example.'' \<mapsto> 1]"
proof -
  let ?s = "example_state [ads_rule, night_rule] False"
  let ?q = "\<lparr>qname = ''x.ads.example.'', qtype_name = ''A''\<rparr>"
  have m: "\<not> maintenance_mode ?s" by (simp add: example_state_def)
  have g: "global_bloqueos ?s = [] @ ads_rule # [] @ night_rule # []"
    by (simp add: example_state_def)
  have p: "\<forall>r \<in> set []. \<not> eligible example_env (qname ?q) r" by simp
  have e1: "eligible example_env (qname ?q) ads_rule"
    by (simp add: eligible_def ads_rule_def example_env_def matches_pattern_def rstrip_dots_def)
  have e2: "eligible example_env (qname ?q) night_rule"
    by (simp add: eligible_def night_rule_def example_env_def matches_pattern_def rstrip_dots_def
        dentro_de_franja_def strptime_HM_def digit_val_def time_le_def)
  have t: "strip (ip ads_rule) = ''0.0.0.0''" "pattern ads_rule = ''*.ads.example.''"
    by (simp_all add: ads_rule_def strip_def isspace_def)
  have u: "upper ''0.0.0.0'' \<noteq> ''REFUSED''" by (simp add: upper_def)
  have a: "A_init example_env ''0.0.0.0'' = Inr [0, 0, 0, 0]"
    by (simp add: example_env_def dotted_quad_def rstrip_dots_def digit_val_def)
  have st: "estadisticas ?s = Map.empty" by (simp add: example_state_def)
  note w = first_match_wins [OF m g p e1 e2, of "Some ''10.0.0.7''"]
  show ?thesis
    using m g e1 e2 w [THEN conjunct1] w [THEN conjunct2, THEN conjunct1]
    by (simp add: t u a st)
qed

subsection \<open>Upstream fallback\<close>

text \<open>
  C4. When no rule of the list is eligible, resolve asks the system resolver for the
  domain with its trailing dots stripped. When the lookup gives an address, the reply
  is one A record for it with ttl 60 and the action is "resolved external" and the address;
  when the lookup (or the construction of the record) raises, the reply is NOERROR without
  records, the action is "error" and the text of the exception, and nothing is raised.
  In both cases the counters are unchanged.
\<close>

theorem resolve_upstream_fallback:
  assumes "\<not> maintenance_mode s"
    and "\<forall>r \<in> set (global_bloqueos s). \<not> eligible e (qname request) r"
  shows "resolve e request handler s =
      (case gethostbyname e (rstrip_dots (qname request)) of
         Inl msg \<Rightarrow>
           (Inr \<lparr>rcode = NOERROR, rr = []\<rparr>,
            s\<lparr>logs := log_append (logs s)
                 \<lparr>ts = clock_ts e,
                  client = (case handler of Some a \<Rightarrow> a | None \<Rightarrow> ''unknown''),
                  query = qname request @ '' ('' @ qtype_name request @ '')'',
                  action = ''error '' @ msg\<rparr>\<rparr>)
       | Inr real_ip \<Rightarrow>
           (case A_init e real_ip of
              Inl msg \<Rightarrow>
                (Inr \<lparr>rcode = NOERROR, rr = []\<rparr>,
                 s\<lparr>logs := log_append (logs s)
                      \<lparr>ts = clock_ts e,
                       client = (case handler of Some a \<Rightarrow> a | None \<Rightarrow> ''unknown''),
                       query = qname request @ '' ('' @ qtype_name request @ '')'',
                       action = ''error '' @ msg\<rparr>\<rparr>)
            | Inr d \<Rightarrow>
                (Inr \<lparr>rcode = NOERROR,
                      rr = [\<lparr>rname = qname request, rtype = QTYPE_A, rdata = A d, ttl = 60\<rparr>]\<rparr>,
                 s\<lparr>logs := log_append (logs s)
                      \<lparr>ts = clock_ts e,
                       client = (case handler of Some a \<Rightarrow> a | None \<Rightarrow> ''unknown''),
                       query = qname request @ '' ('' @ qtype_name request @ '')'',
                       action = ''resolved external '' @ real_ip\<rparr>\<rparr>)))
    \<and> estadisticas (snd (resolve e request handler s)) = estadisticas s"
proof -
  have f: "find_rule e (qname request) (global_bloqueos s) = None"
    using assms(2) by (rule find_rule_none)
  show ?thesis
    using assms(1) f
    by (simp add: resolve_def Let_def log_and_return_def add_answer_def request_reply_def
        split: sum.splits)
qed

theorem resolve_upstream_fallback_witness:
  "\<not> maintenance_mode (example_state [ads_rule] False) \<and>
   global_bloqueos (example_state [ads_rule] False) = [ads_rule] \<and>
   \<not> eligible example_env ''openai.com.'' ads_rule \<and>
   resolve example_env \<lparr>qname = ''openai.com.'', qtype_name = ''A''\<rparr> None
     (example_state [ads_rule] False) =
     (Inr \<lparr>rcode = NOERROR,
           rr = [\<lparr>rname = ''openai.com.'', rtype = QTYPE_A, rdata = A [104, 18, 33, 45],
                  ttl = 60\<rparr>]\<rparr>,
      \<lparr>global_bloqueos = [ads_rule], maintenance_mode = False,
       logs = [\<lparr>ts = ''2024-05-01 23:30:15'', client = ''unknown'',
                query = ''openai.com. (A)'', action = ''resolved external 104.18.33.45''\<rparr>],
       estadisticas = Map.empty\<rparr>)"
proof -
  let ?s = "example_state [ads_rule] False"
  let ?q = "\<lparr>qname = ''openai.com.'', qtype_name = ''A''\<rparr>"
  have m: "\<not> maintenance_mode ?s" by (simp add: example_state_def)
  have n: "\<forall>r \<in> set (global_bloqueos ?s). \<not> eligible example_env (qname ?q) r"
    by (simp add: example_state_def eligible_def ads_rule_def example_env_def
        matches_pattern_def rstrip_dots_def)
  have h: "gethostbyname example_env (rstrip_dots ''openai.com.'') = Inr ''104.18.33.45''"
    by (simp add: example_env_def example_hosts_def rstrip_dots_def)
  have a: "A_init example_env ''104.18.33.45'' = Inr [104, 18, 33, 45]"
    by (simp add: example_env_def dotted_quad_def rstrip_dots_def digit_val_def)
  have c: "clock_ts example_env = ''2024-05-01 23:30:15''" by (simp add: example_env_def)
  have n': "\<not> eligible example_env ''openai.com.'' ads_rule"
    using n by (simp add: example_state_def)
  show ?thesis
    using m n' resolve_upstream_fallback [OF m n, of None]
    by (simp add: h a c example_state_def log_append_def LOG_LIMIT_def)
qed

subsection \<open>The REFUSED target\<close>

lemma lower_char_cases:
  "lower_char c = c \<or>
   (c, lower_char c) \<in> set (zip ''ABCDEFGHIJKLMNOPQRSTUVWXYZ'' ''abcdefghijklmnopqrstuvwxyz'')"
proof (cases "map_of (zip ''ABCDEFGHIJKLMNOPQRSTUVWXYZ'' ''abcdefghijklmnopqrstuvwxyz'') c")
  case None
  then show ?thesis unfolding lower_char_def by simp
next
  case (Some u)
  then have "lower_char c = u" unfolding lower_char_def by simp
  moreover from Some
  have "(c, u) \<in> set (zip ''ABCDEFGHIJKLMNOPQRSTUVWXYZ'' ''abcdefghijklmnopqrstuvwxyz'')"
    by (rule map_of_SomeD)
  ultimately show ?thesis by simp
qed

lemma upper_lower_char: "upper_char (lower_char c) = upper_char c"
proof (cases "map_of (zip ''ABCDEFGHIJKLMNOPQRSTUVWXYZ'' ''abcdefghijklmnopqrstuvwxyz'') c")
  case None
  then show ?thesis unfolding lower_char_def by simp
next
  case (Some u)
  then have l: "lower_char c = u" unfolding lower_char_def by simp
  from Some have "(c, u) \<in> set (zip ''ABCDEFGHIJKLMNOPQRSTUVWXYZ'' ''abcdefghijklmnopqrstuvwxyz'')"
    by (rule map_of_SomeD)
  then have "(c, u) \<in> {(CHR ''A'', CHR ''a''), (CHR ''B'', CHR ''b''), (CHR ''C'', CHR ''c''),
      (CHR ''D'', CHR ''d''), (CHR ''E'', CHR ''e''), (CHR ''F'', CHR ''f''), (CHR ''G'', CHR ''g''),
      (CHR ''H'', CHR ''h''), (CHR ''I'', CHR ''i''), (CHR ''J'', CHR ''j''), (CHR ''K'', CHR ''k''),
      (CHR ''L'', CHR ''l''), (CHR ''M'', CHR ''m''), (CHR ''N'', CHR ''n''), (CHR ''O'', CHR ''o''),
      (CHR ''P'', CHR ''p''), (CHR ''Q'', CHR ''q''), (CHR ''R'', CHR ''r''), (CHR ''S'', CHR ''s''),
      (CHR ''T'', CHR ''t''), (CHR ''U'', CHR ''u''), (CHR ''V'', CHR ''v''), (CHR ''W'', CHR ''w''),
      (CHR ''X'', CHR ''x''), (CHR ''Y'', CHR ''y''), (CHR ''Z'', CHR ''z'')}"
    by simp
  then have "upper_char u = upper_char c"
    by (elim insertE emptyE) (simp_all add: upper_char_def)
  with l show ?thesis by simp
qed

lemma upper_of_lower: "upper (map lower_char t) = upper t"
  by (simp add: upper_def upper_lower_char)

lemma lower_char_r: "lower_char c = CHR ''r'' \<Longrightarrow> c = CHR ''r'' \<or> c = CHR ''R''"
  using lower_char_cases [of c] by auto

lemma lower_char_d: "lower_char c = CHR ''d'' \<Longrightarrow> c = CHR ''d'' \<or> c = CHR ''D''"
  using lower_char_cases [of c] by auto

lemma strip_no_space:
  assumes "t \<noteq> []" and "\<not> isspace (hd t)" and "\<not> isspace (last t)"
  shows "strip t = t"
proof -
  from assms(1,2) have 1: "dropWhile isspace t = t" by (cases t) simp_all
  from assms(1) obtain ys y where t: "t = ys @ [y]" by (cases t rule: rev_cases) auto
  with assms(3) have 2: "dropWhile isspace (rev t) = rev t" by simp
  show ?thesis by (simp add: strip_def 1 2)
qed

lemma refused_any_case:
  assumes "equal_ignoring_case t ''REFUSED''"
  shows "upper (strip t) = ''REFUSED''"
proof -
  have "map lower_char ''REFUSED'' = ''refused''" by (simp add: lower_char_def)
  with assms have l: "map lower_char t = ''refused''"
    by (simp add: equal_ignoring_case_def)
  then have ne: "t \<noteq> []" by auto
  from l ne have h: "lower_char (hd t) = CHR ''r''" by (cases t) simp_all
  from ne obtain ys y where t: "t = ys @ [y]" by (cases t rule: rev_cases) auto
  with l have la: "lower_char (last t) = CHR ''d''"
    by (simp add: append_eq_Cons_conv Cons_eq_append_conv)
  have s1: "\<not> isspace (hd t)"
    using lower_char_r [OF h] by (auto simp: isspace_def)
  have s2: "\<not> isspace (last t)"
    using lower_char_d [OF la] by (auto simp: isspace_def)
  have "strip t = t" using ne s1 s2 by (rule strip_no_space)
  moreover have "upper t = upper (map lower_char t)" by (simp add: upper_of_lower)
  moreover have "upper ''refused'' = ''REFUSED''" by (simp add: upper_def upper_char_def)
  ultimately show ?thesis using l by simp
qed

text \<open>
  C7. When the winning rule's target equals REFUSED with the case of letters ignored,
  resolve returns a reply with rcode REFUSED and no records, the action is "refused @"
  and the pattern, and the counter of the pattern goes up by one.
\<close>

theorem resolve_refused:
  assumes "\<not> maintenance_mode s"
    and "find_rule e (qname request) (global_bloqueos s) = Some item"
    and "equal_ignoring_case (ip item) ''REFUSED''"
  shows "resolve e request handler s =
      (Inr \<lparr>rcode = REFUSED, rr = []\<rparr>,
       s\<lparr>estadisticas := (estadisticas s)(pattern item \<mapsto>
            (case estadisticas s (pattern item) of None \<Rightarrow> 0 | Some n \<Rightarrow> n) + 1),
         logs := log_append (logs s)
            \<lparr>ts = clock_ts e,
             client = (case handler of Some a \<Rightarrow> a | None \<Rightarrow> ''unknown''),
             query = qname request @ '' ('' @ qtype_name request @ '')'',
             action = ''refused @ '' @ pattern item\<rparr>\<rparr>)"
  using resolve_rule [OF assms(1,2), of handler] refused_any_case [OF assms(3)]
  by (simp add: Let_def log_and_return_def request_reply_def)

theorem resolve_refused_witness:
  "\<not> maintenance_mode (example_state [night_rule, ads_rule] False) \<and>
   find_rule example_env ''x.ads.example.''
     (global_bloqueos (example_state [night_rule, ads_rule] False)) = Some night_rule \<and>
   equal_ignoring_case (ip night_rule) ''REFUSED'' \<and>
   resolve example_env \<lparr>qname = ''x.ads.example.'', qtype_name = ''A''\<rparr> (Some ''10.0.0.7'')
     (example_state [night_rule, ads_rule] False) =
     (Inr \<lparr>rcode = REFUSED, rr = []\<rparr>,
      \<lparr>global_bloqueos = [night_rule, ads_rule], maintenance_mode = False,
       logs = [\<lparr>ts = ''2024-05-01 23:30:15'', client = ''10.0.0.7'',
                query = ''x.ads.example. (A)'', action = ''refused @ x.ads.*''\<rparr>],
       estadisticas = [''x.ads.*'' \<mapsto> 1]\<rparr>)"
proof -
  let ?s = "example_state [night_rule, ads_rule] False"
  let ?q = "\<lparr>qname = ''x.ads.example.'', qtype_name = ''A''\<rparr>"
  have m: "\<not> maintenance_mode ?s" by (simp add: example_state_def)
  have f: "find_rule example_env (qname ?q) (global_bloqueos ?s) = Some night_rule"
    by (simp add: example_state_def night_rule_def example_env_def matches_pattern_def
        rstrip_dots_def dentro_de_franja_def strptime_HM_def digit_val_def time_le_def)
  have c: "equal_ignoring_case (ip night_rule) ''REFUSED''"
    by (simp add: equal_ignoring_case_def night_rule_def lower_char_def)
  have p: "pattern night_rule = ''x.ads.*''" by (simp add: night_rule_def)
  have ts: "clock_ts example_env = ''2024-05-01 23:30:15''" by (simp add: example_env_def)
  show ?thesis
    using m f c resolve_refused [OF m f c, of "Some ''10.0.0.7''"]
    by (simp add: p ts example_state_def log_append_def LOG_LIMIT_def)
qed

subsection \<open>A target that is not an address\<close>

text \<open>
  C5. The call with the rule list [broken_rule] (pattern "bad.example.", target "abc",
  enabled) and the question "bad.example." does not return a reply: the address
  constructor raises on "abc" outside any handler, the exception leaves resolve, the
  counter of the pattern is already incremented and no log entry is written.
\<close>

theorem resolve_raises_on_bad_target:
  "resolve example_env \<lparr>qname = ''bad.example.'', qtype_name = ''A''\<rparr> (Some ''10.0.0.7'')
     (example_state [broken_rule] False) =
     (Inl (Raised ''invalid literal for int() with base 10''),
      \<lparr>global_bloqueos = [broken_rule], maintenance_mode = False, logs = [],
       estadisticas = [''bad.example.'' \<mapsto> 1]\<rparr>)"
  by (simp add: resolve_def example_state_def broken_rule_def example_env_def
      matches_pattern_def rstrip_dots_def dentro_de_franja_def strptime_HM_def digit_val_def
      time_le_def strip_def isspace_def upper_def upper_char_def dotted_quad_def Let_def)

subsection \<open>Trailing dots in the pattern match\<close>

lemma rstrip_dots_append_dots:
  "rstrip_dots (s @ replicate n (CHR ''.'')) = rstrip_dots s"
proof -
  have "dropWhile (\<lambda>c. c = CHR ''.'') (replicate n (CHR ''.'') @ rev s) =
      dropWhile (\<lambda>c. c = CHR ''.'') (rev s)"
    by (rule dropWhile_append2) simp
  then show ?thesis by (simp add: rstrip_dots_def)
qed

lemma rstrip_dots_id: "\<not> endswith_dot s \<Longrightarrow> rstrip_dots s = s"
  by (cases s rule: rev_cases) (simp_all add: rstrip_dots_def endswith_dot_def)

text \<open>
  C6, as the code has it. matches_pattern strips every trailing dot of both inputs before
  the glob comparison: a name and a pattern that do not end in a dot, each followed by
  any number of dots, compare as the name and the pattern themselves.
\<close>

theorem matches_pattern_strips_all_dots:
  assumes "\<not> endswith_dot name" and "\<not> endswith_dot pat"
  shows "matches_pattern fnm (name @ replicate i (CHR ''.'')) (pat @ replicate j (CHR ''.'')) =
      fnm name pat"
  using assms by (simp add: matches_pattern_def rstrip_dots_append_dots rstrip_dots_id)

theorem matches_pattern_strips_all_dots_witness:
  "\<not> endswith_dot ''example.com'' \<and>
   matches_pattern glob (''example.com'' @ replicate 1 (CHR ''.''))
     (''example.com'' @ replicate 2 (CHR ''.'')) = glob ''example.com'' ''example.com''"
proof -
  have d: "\<not> endswith_dot ''example.com''" by (simp add: endswith_dot_def)
  show ?thesis using d matches_pattern_strips_all_dots [OF d d, of glob 1 2] by simp
qed

text \<open>
  The claim as stated fails: with the pattern "example.com.." the code reports a match
  for the name "example.com.", while the comparison after stripping a single dot of each
  does not match.
\<close>

theorem matches_pattern_single_dot_counterexample:
  "matches_pattern glob ''example.com.'' ''example.com..'' \<noteq>
   matches_spec glob ''example.com.'' ''example.com..''"
  by (simp add: matches_pattern_def matches_spec_def rstrip_dots_def strip_single_dot_def
      endswith_dot_def)

subsection \<open>The bounded activity log\<close>

lemma log_append_drop:
  "log_append l en = drop (length (l @ [en]) - LOG_LIMIT) (l @ [en])"
  by (simp add: log_append_def Let_def)

lemma log_append_length: "length (log_append l en) \<le> LOG_LIMIT"
  by (simp add: log_append_def Let_def LOG_LIMIT_def)

lemma drop_last_twice:
  "drop (length (drop (length xs - n) xs @ ys) - n) (drop (length xs - n) xs @ ys) =
   drop (length (xs @ ys) - n) (xs @ ys)"
  by (cases "length xs \<le> n") (simp_all add: add.commute)

lemma resolve_returns_logs:
  assumes "fst (resolve e request handler s) = Inr rp"
  shows "\<exists>act. logs (snd (resolve e request handler s)) =
      log_append (logs s)
        \<lparr>ts = clock_ts e, client = (case handler of Some a \<Rightarrow> a | None \<Rightarrow> ''unknown''),
         query = qname request @ '' ('' @ qtype_name request @ '')'', action = act\<rparr>"
  using assms
  by (auto simp: resolve_def Let_def log_and_return_def split: option.splits sum.splits if_splits)

lemma resolve_raises_logs:
  assumes "fst (resolve e request handler s) = Inl x"
  shows "logs (snd (resolve e request handler s)) = logs s"
  using assms
  by (auto simp: resolve_def Let_def log_and_return_def split: option.splits sum.splits if_splits)

lemma resolve_logs_bounded:
  assumes "length (logs s) \<le> LOG_LIMIT"
  shows "length (logs (snd (resolve e request handler s))) \<le> LOG_LIMIT"
proof (cases "fst (resolve e request handler s)")
  case (Inl x)
  then show ?thesis using assms resolve_raises_logs by simp
next
  case (Inr rp)
  from resolve_returns_logs [OF Inr] obtain act where
    "logs (snd (resolve e request handler s)) =
      log_append (logs s)
        \<lparr>ts = clock_ts e, client = (case handler of Some a \<Rightarrow> a | None \<Rightarrow> ''unknown''),
         query = qname request @ '' ('' @ qtype_name request @ '')'', action = act\<rparr>" ..
  then show ?thesis by (simp add: log_append_length)
qed

lemma resolve_all_Cons:
  "resolve_all ((e, request, handler) # calls) s =
     (fst (resolve e request handler s) # fst (resolve_all calls (snd (resolve e request handler s))),
      snd (resolve_all calls (snd (resolve e request handler s))))"
  by (simp add: split_beta Let_def)

lemma resolve_all_bounded:
  "length (logs s) \<le> LOG_LIMIT \<Longrightarrow> length (logs (snd (resolve_all calls s))) \<le> LOG_LIMIT"
proof (induction calls arbitrary: s)
  case Nil
  then show ?case by simp
next
  case (Cons c calls)
  obtain e request handler where c: "c = (e, request, handler)" by (cases c) auto
  have "length (logs (snd (resolve e request handler s))) \<le> LOG_LIMIT"
    using Cons.prems by (rule resolve_logs_bounded)
  then have "length (logs (snd (resolve_all calls (snd (resolve e request handler s))))) \<le> LOG_LIMIT"
    by (rule Cons.IH)
  then show ?case unfolding c resolve_all_Cons by simp
qed

text \<open>What a call writes into the log besides the action: timestamp, client and query.\<close>

lemma resolve_all_entries:
  "\<forall>out \<in> set (fst (resolve_all calls s)). \<not> isl out \<Longrightarrow>
   \<exists>es. map (\<lambda>en. (ts en, client en, query en)) es =
          map (\<lambda>(e, request, handler).
                 (clock_ts e, (case handler of Some a \<Rightarrow> a | None \<Rightarrow> ''unknown''),
                  qname request @ '' ('' @ qtype_name request @ '')'')) calls \<and>
        (calls \<noteq> [] \<or> length (logs s) \<le> LOG_LIMIT \<longrightarrow>
         logs (snd (resolve_all calls s)) =
           drop (length (logs s @ es) - LOG_LIMIT) (logs s @ es))"
proof (induction calls arbitrary: s)
  case Nil
  show ?case by simp
next
  case (Cons c calls)
  obtain e request handler where c: "c = (e, request, handler)" by (cases c) auto
  let ?s1 = "snd (resolve e request handler s)"
  from Cons.prems have r: "\<not> isl (fst (resolve e request handler s))"
    and rest: "\<forall>out \<in> set (fst (resolve_all calls ?s1)). \<not> isl out"
    unfolding c resolve_all_Cons by simp_all
  from r obtain rp where rp: "fst (resolve e request handler s) = Inr rp"
    by (cases "fst (resolve e request handler s)") auto
  from resolve_returns_logs [OF rp] obtain act where
    l1: "logs ?s1 = log_append (logs s)
        \<lparr>ts = clock_ts e, client = (case handler of Some a \<Rightarrow> a | None \<Rightarrow> ''unknown''),
         query = qname request @ '' ('' @ qtype_name request @ '')'', action = act\<rparr>" ..
  define en where "en = \<lparr>ts = clock_ts e,
      client = (case handler of Some a \<Rightarrow> a | None \<Rightarrow> ''unknown''),
      query = qname request @ '' ('' @ qtype_name request @ '')'', action = act\<rparr>"
  have l1': "logs ?s1 = drop (length (logs s @ [en]) - LOG_LIMIT) (logs s @ [en])"
    using l1 by (simp add: en_def log_append_drop)
  have b1: "length (logs ?s1) \<le> LOG_LIMIT"
    using l1 by (simp add: log_append_length)
  from Cons.IH [OF rest] b1 obtain es where
    m: "map (\<lambda>en. (ts en, client en, query en)) es =
          map (\<lambda>(e, request, handler).
                 (clock_ts e, (case handler of Some a \<Rightarrow> a | None \<Rightarrow> ''unknown''),
                  qname request @ '' ('' @ qtype_name request @ '')'')) calls"
    and l2: "logs (snd (resolve_all calls ?s1)) =
           drop (length (logs ?s1 @ es) - LOG_LIMIT) (logs ?s1 @ es)"
    by blast
  have "logs (snd (resolve_all calls ?s1)) =
      drop (length ((logs s @ [en]) @ es) - LOG_LIMIT) ((logs s @ [en]) @ es)"
    unfolding l2 l1' by (rule drop_last_twice)
  then have l3: "logs (snd (resolve_all (c # calls) s)) =
      drop (length (logs s @ en # es) - LOG_LIMIT) (logs s @ en # es)"
    unfolding c resolve_all_Cons by simp
  have m3: "map (\<lambda>en. (ts en, client en, query en)) (en # es) =
          map (\<lambda>(e, request, handler).
                 (clock_ts e, (case handler of Some a \<Rightarrow> a | None \<Rightarrow> ''unknown''),
                  qname request @ '' ('' @ qtype_name request @ '')'')) (c # calls)"
    using m by (simp add: c en_def)
  from m3 l3 show ?case by blast
qed

text \<open>
  The bound and the eviction. Starting with a log within the bound, the log holds at most
  100 entries after any sequence of resolve calls. When every call returns, each call has
  appended one entry (with its timestamp, client and query, in call order) and the log is
  the last 100 entries of the old log followed by the new entries; so from an empty log,
  after 150 such calls the log is the last 100 of the 150 entries, in the order they were
  appended.
\<close>

theorem activity_log_bounded:
  assumes "length (logs s) \<le> 100"
  shows "length (logs (snd (resolve_all calls s))) \<le> 100 \<and>
    ((\<forall>out \<in> set (fst (resolve_all calls s)). \<not> isl out) \<longrightarrow>
     (\<exists>es. map (\<lambda>en. (ts en, client en, query en)) es =
            map (\<lambda>(e, request, handler).
                   (clock_ts e, (case handler of Some a \<Rightarrow> a | None \<Rightarrow> ''unknown''),
                    qname request @ '' ('' @ qtype_name request @ '')'')) calls \<and>
          logs (snd (resolve_all calls s)) = drop (length (logs s @ es) - 100) (logs s @ es) \<and>
          (logs s = [] \<and> length calls = 150 \<longrightarrow>
             logs (snd (resolve_all calls s)) = drop 50 es \<and>
             length (logs (snd (resolve_all calls s))) = 100)))"
proof -
  have b: "length (logs s) \<le> LOG_LIMIT" using assms by (simp add: LOG_LIMIT_def)
  have 1: "length (logs (snd (resolve_all calls s))) \<le> 100"
    using resolve_all_bounded [OF b, of calls] by (simp add: LOG_LIMIT_def)
  have 2: "\<exists>es. map (\<lambda>en. (ts en, client en, query en)) es =
            map (\<lambda>(e, request, handler).
                   (clock_ts e, (case handler of Some a \<Rightarrow> a | None \<Rightarrow> ''unknown''),
                    qname request @ '' ('' @ qtype_name request @ '')'')) calls \<and>
          logs (snd (resolve_all calls s)) = drop (length (logs s @ es) - 100) (logs s @ es) \<and>
          (logs s = [] \<and> length calls = 150 \<longrightarrow>
             logs (snd (resolve_all calls s)) = drop 50 es \<and>
             length (logs (snd (resolve_all calls s))) = 100)"
    if ret: "\<forall>out \<in> set (fst (resolve_all calls s)). \<not> isl out"
  proof -
    from resolve_all_entries [OF ret] b obtain es where
      m: "map (\<lambda>en. (ts en, client en, query en)) es =
            map (\<lambda>(e, request, handler).
                   (clock_ts e, (case handler of Some a \<Rightarrow> a | None \<Rightarrow> ''unknown''),
                    qname request @ '' ('' @ qtype_name request @ '')'')) calls"
      and l: "logs (snd (resolve_all calls s)) =
           drop (length (logs s @ es) - LOG_LIMIT) (logs s @ es)"
      by blast
    from m have len: "length es = length calls" by (rule map_eq_imp_length_eq)
    have l': "logs (snd (resolve_all calls s)) = drop (length (logs s @ es) - 100) (logs s @ es)"
      using l by (simp add: LOG_LIMIT_def)
    have "logs (snd (resolve_all calls s)) = drop 50 es \<and>
          length (logs (snd (resolve_all calls s))) = 100"
      if "logs s = []" "length calls = 150"
      using that l' len by simp
    with m l' show ?thesis by blast
  qed
  from 1 2 show ?thesis by blast
qed


theorem activity_log_bounded_witness:
  "length (logs ((example_state [ads_rule] False)
      \<lparr>logs := \<lparr>ts = ''2024-05-01 23:00:00'', client = ''10.0.0.1'', query = ''first. (A)'',
                 action = ''error first''\<rparr> #
               replicate 99 \<lparr>ts = ''2024-05-01 23:10:00'', client = ''10.0.0.2'',
                 query = ''older. (A)'', action = ''error older''\<rparr>\<rparr>)) \<le> 100 \<and>
   length (logs (snd (resolve_all
     [(example_env, \<lparr>qname = ''x.ads.example.'', qtype_name = ''A''\<rparr>, Some ''10.0.0.7'')]
     ((example_state [ads_rule] False)
      \<lparr>logs := \<lparr>ts = ''2024-05-01 23:00:00'', client = ''10.0.0.1'', query = ''first. (A)'',
                 action = ''error first''\<rparr> #
               replicate 99 \<lparr>ts = ''2024-05-01 23:10:00'', client = ''10.0.0.2'',
                 query = ''older. (A)'', action = ''error older''\<rparr>\<rparr>)))) \<le> 100 \<and>
   logs (snd (resolve_all
     [(example_env, \<lparr>qname = ''x.ads.example.'', qtype_name = ''A''\<rparr>, Some ''10.0.0.7'')]
     ((example_state [ads_rule] False)
      \<lparr>logs := \<lparr>ts = ''2024-05-01 23:00:00'', client = ''10.0.0.1'', query = ''first. (A)'',
                 action = ''error first''\<rparr> #
               replicate 99 \<lparr>ts = ''2024-05-01 23:10:00'', client = ''10.0.0.2'',
                 query = ''older. (A)'', action = ''error older''\<rparr>\<rparr>))) =
     replicate 99 \<lparr>ts = ''2024-05-01 23:10:00'', client = ''10.0.0.2'',
                 query = ''older. (A)'', action = ''error older''\<rparr> @
     [\<lparr>ts = ''2024-05-01 23:30:15'', client = ''10.0.0.7'', query = ''x.ads.example. (A)'',
       action = ''redirect to 0.0.0.0 @ *.ads.example.''\<rparr>] \<and>
   map isl (fst (resolve_all
     [(example_env, \<lparr>qname = ''x.ads.example.'', qtype_name = ''A''\<rparr>, Some ''10.0.0.7'')]
     ((example_state [ads_rule] False)
      \<lparr>logs := \<lparr>ts = ''2024-05-01 23:00:00'', client = ''10.0.0.1'', query = ''first. (A)'',
                 action = ''error first''\<rparr> #
               replicate 99 \<lparr>ts = ''2024-05-01 23:10:00'', client = ''10.0.0.2'',
                 query = ''older. (A)'', action = ''error older''\<rparr>\<rparr>))) = [False]"
proof -
  have h: "length (logs ((example_state [ads_rule] False)
      \<lparr>logs := \<lparr>ts = ''2024-05-01 23:00:00'', client = ''10.0.0.1'', query = ''first. (A)'',
                 action = ''error first''\<rparr> #
               replicate 99 \<lparr>ts = ''2024-05-01 23:10:00'', client = ''10.0.0.2'',
                 query = ''older. (A)'', action = ''error older''\<rparr>\<rparr>)) \<le> 100"
    by (simp add: example_state_def)
  have l: "logs (snd (resolve_all
     [(example_env, \<lparr>qname = ''x.ads.example.'', qtype_name = ''A''\<rparr>, Some ''10.0.0.7'')]
     ((example_state [ads_rule] False)
      \<lparr>logs := \<lparr>ts = ''2024-05-01 23:00:00'', client = ''10.0.0.1'', query = ''first. (A)'',
                 action = ''error first''\<rparr> #
               replicate 99 \<lparr>ts = ''2024-05-01 23:10:00'', client = ''10.0.0.2'',
                 query = ''older. (A)'', action = ''error older''\<rparr>\<rparr>))) =
     replicate 99 \<lparr>ts = ''2024-05-01 23:10:00'', client = ''10.0.0.2'',
                 query = ''older. (A)'', action = ''error older''\<rparr> @
     [\<lparr>ts = ''2024-05-01 23:30:15'', client = ''10.0.0.7'', query = ''x.ads.example. (A)'',
       action = ''redirect to 0.0.0.0 @ *.ads.example.''\<rparr>]"
    by (simp add: resolve_def example_state_def ads_rule_def example_env_def
        matches_pattern_def rstrip_dots_def strip_def isspace_def upper_def upper_char_def
        dotted_quad_def digit_val_def Let_def log_and_return_def log_append_def LOG_LIMIT_def
        add_answer_def request_reply_def)
  have r: "map isl (fst (resolve_all
     [(example_env, \<lparr>qname = ''x.ads.example.'', qtype_name = ''A''\<rparr>, Some ''10.0.0.7'')]
     ((example_state [ads_rule] False)
      \<lparr>logs := \<lparr>ts = ''2024-05-01 23:00:00'', client = ''10.0.0.1'', query = ''first. (A)'',
                 action = ''error first''\<rparr> #
               replicate 99 \<lparr>ts = ''2024-05-01 23:10:00'', client = ''10.0.0.2'',
                 query = ''older. (A)'', action = ''error older''\<rparr>\<rparr>))) = [False]"
    by (simp add: resolve_def example_state_def ads_rule_def example_env_def
        matches_pattern_def rstrip_dots_def strip_def isspace_def upper_def upper_char_def
        dotted_quad_def digit_val_def Let_def log_and_return_def)
  note w = activity_log_bounded [OF h, of
     "[(example_env, \<lparr>qname = ''x.ads.example.'', qtype_name = ''A''\<rparr>, Some ''10.0.0.7'')]"]
  from h w [THEN conjunct1] l r show ?thesis by blast
qed

text \<open>
  C8. Not every call appends an entry. Of the two calls below, the first is answered by
  ads_rule and logged; the second is decided by broken_rule, whose target "abc" is not an
  address: the address constructor raises before the log is written, so after two calls
  the log holds one entry.
\<close>

theorem raising_call_appends_no_entry:
  "map isl (fst (resolve_all
     [(example_env, \<lparr>qname = ''x.ads.example.'', qtype_name = ''A''\<rparr>, Some ''10.0.0.7''),
      (example_env, \<lparr>qname = ''bad.example.'', qtype_name = ''A''\<rparr>, Some ''10.0.0.7'')]
     (example_state [ads_rule, broken_rule] False))) = [False, True] \<and>
   logs (snd (resolve_all
     [(example_env, \<lparr>qname = ''x.ads.example.'', qtype_name = ''A''\<rparr>, Some ''10.0.0.7''),
      (example_env, \<lparr>qname = ''bad.example.'', qtype_name = ''A''\<rparr>, Some ''10.0.0.7'')]
     (example_state [ads_rule, broken_rule] False))) =
     [\<lparr>ts = ''2024-05-01 23:30:15'', client = ''10.0.0.7'', query = ''x.ads.example. (A)'',
       action = ''redirect to 0.0.0.0 @ *.ads.example.''\<rparr>]"
  by (simp add: resolve_def example_state_def ads_rule_def broken_rule_def example_env_def
      matches_pattern_def rstrip_dots_def dentro_de_franja_def strptime_HM_def digit_val_def
      time_le_def strip_def isspace_def upper_def upper_char_def dotted_quad_def Let_def
      log_and_return_def log_append_def LOG_LIMIT_def add_answer_def request_reply_def)

subsection \<open>Dot-terminated patterns\<close>

lemma toggle_first_patterns: "map pattern (toggle_first q rules) = map pattern rules"
  by (induction rules) simp_all

lemma toggle_first_absent:
  "\<forall>r \<in> set rules. Some (pattern r) \<noteq> q \<Longrightarrow> toggle_first q rules = rules"
  by (induction rules) simp_all

lemma filter_absent:
  "\<forall>r \<in> set rules. Some (pattern r) \<noteq> q \<Longrightarrow> filter (\<lambda>i. Some (pattern i) \<noteq> q) rules = rules"
  by (induction rules) simp_all

lemma endswith_dot_normalised:
  "endswith_dot (if endswith_dot p then p else p @ ''.'')"
  by (simp add: endswith_dot_def)

text \<open>
  C10. add_block appends one enabled rule whose pattern is the stripped form field, with a
  dot appended when it does not end in one, so the stored pattern ends in a dot. When
  every stored pattern ends in a dot, this stays so under add_block, remove_block and
  toggle_rule, and remove_block and toggle_rule change the rule list only when they are
  called with a pattern that ends in a dot.
\<close>

theorem add_block_dot_terminated:
  "global_bloqueos (add_block form_pattern form_ip form_start form_end s) =
     global_bloqueos s @
       [\<lparr>pattern = (if endswith_dot (strip form_pattern) then strip form_pattern
                    else strip form_pattern @ ''.''),
         ip = strip form_ip,
         start = Some (case form_start of None \<Rightarrow> ''00:00'' | Some x \<Rightarrow> x),
         end' = Some (case form_end of None \<Rightarrow> ''23:59'' | Some x \<Rightarrow> x),
         enabled = Some True\<rparr>] \<and>
   endswith_dot (pattern (last (global_bloqueos (add_block form_pattern form_ip form_start form_end s)))) \<and>
   ((\<forall>r \<in> set (global_bloqueos s). endswith_dot (pattern r)) \<longrightarrow>
      (\<forall>r \<in> set (global_bloqueos (add_block form_pattern form_ip form_start form_end s)).
         endswith_dot (pattern r)) \<and>
      (\<forall>r \<in> set (global_bloqueos (remove_block q s)). endswith_dot (pattern r)) \<and>
      (\<forall>r \<in> set (global_bloqueos (toggle_rule q s)). endswith_dot (pattern r)) \<and>
      (global_bloqueos (remove_block q s) \<noteq> global_bloqueos s \<longrightarrow>
         (\<exists>p. q = Some p \<and> endswith_dot p)) \<and>
      (global_bloqueos (toggle_rule q s) \<noteq> global_bloqueos s \<longrightarrow>
         (\<exists>p. q = Some p \<and> endswith_dot p)))"
proof -
  have a: "global_bloqueos (add_block form_pattern form_ip form_start form_end s) =
     global_bloqueos s @
       [\<lparr>pattern = (if endswith_dot (strip form_pattern) then strip form_pattern
                    else strip form_pattern @ ''.''),
         ip = strip form_ip,
         start = Some (case form_start of None \<Rightarrow> ''00:00'' | Some x \<Rightarrow> x),
         end' = Some (case form_end of None \<Rightarrow> ''23:59'' | Some x \<Rightarrow> x),
         enabled = Some True\<rparr>]"
    by (simp add: add_block_def Let_def)
  have b: "endswith_dot (pattern (last (global_bloqueos
      (add_block form_pattern form_ip form_start form_end s))))"
    unfolding a using endswith_dot_normalised [of "strip form_pattern"] by simp
  have c: "(\<forall>r \<in> set (global_bloqueos (add_block form_pattern form_ip form_start form_end s)).
         endswith_dot (pattern r)) \<and>
      (\<forall>r \<in> set (global_bloqueos (remove_block q s)). endswith_dot (pattern r)) \<and>
      (\<forall>r \<in> set (global_bloqueos (toggle_rule q s)). endswith_dot (pattern r)) \<and>
      (global_bloqueos (remove_block q s) \<noteq> global_bloqueos s \<longrightarrow>
         (\<exists>p. q = Some p \<and> endswith_dot p)) \<and>
      (global_bloqueos (toggle_rule q s) \<noteq> global_bloqueos s \<longrightarrow>
         (\<exists>p. q = Some p \<and> endswith_dot p))"
    if inv: "\<forall>r \<in> set (global_bloqueos s). endswith_dot (pattern r)"
  proof -
    have c1: "\<forall>r \<in> set (global_bloqueos (add_block form_pattern form_ip form_start form_end s)).
         endswith_dot (pattern r)"
      unfolding a using inv endswith_dot_normalised [of "strip form_pattern"] by auto
    have c2: "\<forall>r \<in> set (global_bloqueos (remove_block q s)). endswith_dot (pattern r)"
      using inv by (simp add: remove_block_def)
    have "\<forall>p \<in> set (map pattern (toggle_first q (global_bloqueos s))). endswith_dot p"
      unfolding toggle_first_patterns using inv by simp
    then have c3: "\<forall>r \<in> set (global_bloqueos (toggle_rule q s)). endswith_dot (pattern r)"
      by (simp add: toggle_rule_def)
    have present: "\<exists>p. q = Some p \<and> endswith_dot p"
      if "\<not> (\<forall>r \<in> set (global_bloqueos s). Some (pattern r) \<noteq> q)"
      using that inv by auto
    have c4: "global_bloqueos (remove_block q s) \<noteq> global_bloqueos s \<longrightarrow>
         (\<exists>p. q = Some p \<and> endswith_dot p)"
    proof
      assume ne: "global_bloqueos (remove_block q s) \<noteq> global_bloqueos s"
      have "\<not> (\<forall>r \<in> set (global_bloqueos s). Some (pattern r) \<noteq> q)"
      proof
        assume "\<forall>r \<in> set (global_bloqueos s). Some (pattern r) \<noteq> q"
        then have "filter (\<lambda>i. Some (pattern i) \<noteq> q) (global_bloqueos s) = global_bloqueos s"
          by (rule filter_absent)
        with ne show False by (simp add: remove_block_def)
      qed
      then show "\<exists>p. q = Some p \<and> endswith_dot p" by (rule present)
    qed
    have c5: "global_bloqueos (toggle_rule q s) \<noteq> global_bloqueos s \<longrightarrow>
         (\<exists>p. q = Some p \<and> endswith_dot p)"
    proof
      assume ne: "global_bloqueos (toggle_rule q s) \<noteq> global_bloqueos s"
      have "\<not> (\<forall>r \<in> set (global_bloqueos s). Some (pattern r) \<noteq> q)"
      proof
        assume "\<forall>r \<in> set (global_bloqueos s). Some (pattern r) \<noteq> q"
        then have "toggle_first q (global_bloqueos s) = global_bloqueos s"
          by (rule toggle_first_absent)
        with ne show False by (simp add: toggle_rule_def)
      qed
      then show "\<exists>p. q = Some p \<and> endswith_dot p" by (rule present)
    qed
    from c1 c2 c3 c4 c5 show ?thesis by blast
  qed
  from a b c show ?thesis by blast
qed

theorem add_block_dot_terminated_witness:
  "endswith_dot (pattern ads_rule) \<and>
   global_bloqueos (add_block '' ads.example'' ''0.0.0.0'' None None
     (example_state [ads_rule] False)) =
     [ads_rule,
      \<lparr>pattern = ''ads.example.'', ip = ''0.0.0.0'', start = Some ''00:00'',
       end' = Some ''23:59'', enabled = Some True\<rparr>] \<and>
   global_bloqueos (remove_block (Some ''*.ads.example'') (example_state [ads_rule] False)) =
     [ads_rule] \<and>
   global_bloqueos (remove_block (Some ''*.ads.example.'') (example_state [ads_rule] False)) = [] \<and>
   global_bloqueos (toggle_rule (Some ''*.ads.example'') (example_state [ads_rule] False)) =
     [ads_rule] \<and>
   global_bloqueos (toggle_rule (Some ''*.ads.example.'') (example_state [ads_rule] False)) =
     [ads_rule\<lparr>enabled := Some False\<rparr>]"
  using add_block_dot_terminated [of "'' ads.example''" "''0.0.0.0''" None None
      "example_state [ads_rule] False" "Some ''*.ads.example.''"]
  by (simp add: remove_block_def toggle_rule_def add_block_def example_state_def ads_rule_def
      strip_def isspace_def endswith_dot_def Let_def)

end
